theory Spec2Isabelle
  imports Complex_Main
begin

section \<open>Data model\<close>

text \<open>
  A JavaScript \<open>number\<close> that takes part in the offset arithmetic is either a finite
  value or \<open>NaN\<close>. Finite values are rationals: the remainder \<open>a % b\<close> of two finite
  doubles is computed without rounding, so the exact remainder is what the program
  stores. Infinite operands are left out.
\<close>

datatype jsnum = NaN | Fin rat

definition js_trunc :: "rat \<Rightarrow> int" where
  "js_trunc x = (if 0 \<le> x then \<lfloor>x\<rfloor> else \<lceil>x\<rceil>)"

text \<open>The operator \<open>%\<close>: the result has the sign of the dividend; a zero divisor gives \<open>NaN\<close>.\<close>

definition js_rem :: "rat \<Rightarrow> rat \<Rightarrow> jsnum" where
  "js_rem a b = (if b = 0 then NaN else Fin (a - b * of_int (js_trunc (a / b))))"

text \<open>
  An \<open>AudioBuffer\<close>: its decoded data (opaque, named by a number) and its duration in
  seconds.
\<close>

record buffer =
  content :: nat
  duration :: rat

text \<open>
  An \<open>AudioBufferSourceNode\<close>. Object identity is the field \<open>vid\<close>; the other fields
  hold what the class last assigned to \<open>buffer\<close>, \<open>loop\<close> and \<open>playbackRate.value\<close>.
  A call of \<open>playbackRate.setValueAtTime\<close> is an entry of the trace and no assignment.
\<close>

record voice =
  vid :: nat
  vbuffer :: buffer
  vloop :: bool
  vrate :: rat

text \<open>
  Calls made on objects outside the class, in the order they are made: on source nodes,
  on the panner and gain nodes, and on the resolver of the promise handed out by
  \<open>whenAllEnded\<close>.
\<close>

datatype call =
    SrcConnect nat
  | SrcStart nat jsnum
  | SrcStop nat
  | SrcDisconnect nat
  | SrcSetRate nat rat
  | Resolve nat
  | PannerDisconnect
  | GainDisconnect

text \<open>
  The fields of \<open>AudioStreamPlayer3D\<close>. \<open>handlers\<close> lists the source nodes that carry
  an \<open>onended\<close> closure of this player, \<open>nextId\<close> is the supply of fresh object
  identities (source nodes and promises), \<open>trace\<close> the calls made so far.
\<close>

record player =
  loop :: bool
  playbackRate :: rat
  maxPolyphony :: int
  offset :: jsnum
  endedPromiseResolver :: "nat option"
  useCache :: bool
  sourcePath :: string
  sources :: "voice list"
  buffer :: "buffer option"
  handlers :: "nat list"
  nextId :: nat
  trace :: "call list"

text \<open>
  The module-level \<open>streamCache\<close> and the log of the URLs handed to \<open>fetch\<close>.
\<close>

record world =
  streamCache :: "string \<rightharpoonup> buffer"
  fetched :: "string list"

datatype load_error = FetchFailed | DecodeFailed

text \<open>The fetch-and-decode primitive the loader calls: it may fail.\<close>

type_synonym net = "string \<Rightarrow> load_error + buffer"

type_synonym state = "world \<times> player"

text \<open>The options of the constructor that reach the fields above.\<close>

record options =
  opt_useCache :: "bool option"
  opt_maxPolyphony :: "int option"

definition new_player :: "string \<Rightarrow> options \<Rightarrow> player" where
  "new_player path opts =
     \<lparr> loop = False, playbackRate = 1,
       maxPolyphony = (case opt_maxPolyphony opts of None \<Rightarrow> 1 | Some m \<Rightarrow> m),
       offset = Fin 0, endedPromiseResolver = None,
       useCache = (case opt_useCache opts of None \<Rightarrow> True | Some u \<Rightarrow> u),
       sourcePath = path, sources = [], buffer = None, handlers = [], nextId = 0,
       trace = [] \<rparr>"

section \<open>The loader\<close>

definition loadAudioBuffer :: "net \<Rightarrow> string \<Rightarrow> world \<Rightarrow> world \<times> (load_error + buffer)" where
  "loadAudioBuffer fetch url w = (w\<lparr>fetched := fetched w @ [url]\<rparr>, fetch url)"

definition loadAudioWithCaching :: "net \<Rightarrow> string \<Rightarrow> world \<Rightarrow> world \<times> (load_error + buffer)" where
  "loadAudioWithCaching fetch url w =
     (case streamCache w url of
        Some b \<Rightarrow> (w, Inr b)
      | None \<Rightarrow>
          (case loadAudioBuffer fetch url w of
             (w1, Inl e) \<Rightarrow> (w1, Inl e)
           | (w1, Inr b) \<Rightarrow> (w1\<lparr>streamCache := (streamCache w1)(url \<mapsto> b)\<rparr>, Inr b)))"

text \<open>
  \<open>loadAudio\<close> run to completion. The first component is how the returned promise
  settles: \<open>Inl e\<close> is a rejection with \<open>e\<close>.
\<close>

definition loadAudio :: "net \<Rightarrow> state \<Rightarrow> (load_error + unit) \<times> state" where
  "loadAudio fetch s =
     (case s of (w, p) \<Rightarrow>
        (case (if useCache p then loadAudioWithCaching else loadAudioBuffer) fetch (sourcePath p) w of
           (w1, Inl e) \<Rightarrow> (Inl e, (w1, p))
         | (w1, Inr b) \<Rightarrow> (Inr (), (w1, p\<lparr>buffer := Some b\<rparr>))))"

section \<open>The player\<close>

definition halt :: "voice \<Rightarrow> call list" where
  "halt v = [SrcStop (vid v), SrcDisconnect (vid v)]"

function stopLoop :: "nat \<Rightarrow> player \<Rightarrow> player" where
  "stopLoop index p =
     (if index < length (sources p)
      then stopLoop (index + 1) (p\<lparr>trace := trace p @ halt (sources p ! index)\<rparr>)
      else p)"
  by pat_completeness auto
termination
  by (relation "measure (\<lambda>(index, p). length (sources p) - index)") auto

declare stopLoop.simps [simp del]

definition stopAllSources :: "player \<Rightarrow> player" where
  "stopAllSources p =
     (let p1 = stopLoop 0 p;
          p2 = p1\<lparr>sources := []\<rparr>
      in case endedPromiseResolver p2 of
           Some r \<Rightarrow> p2\<lparr>trace := trace p2 @ [Resolve r], endedPromiseResolver := None\<rparr>
         | None \<Rightarrow> p2)"

text \<open>\<open>Array.prototype.shift\<close>: the first element, if there is one, and the rest.\<close>

definition shift :: "'a list \<Rightarrow> 'a option \<times> 'a list" where
  "shift xs = (case xs of [] \<Rightarrow> (None, []) | x # r \<Rightarrow> (Some x, r))"

text \<open>
  \<open>play\<close> from its second statement on: what runs when the buffer is there at the call,
  and what runs after the awaited load otherwise.
\<close>

definition play_resume :: "player \<Rightarrow> player" where
  "play_resume p =
     (case buffer p of
        None \<Rightarrow> p
      | Some b \<Rightarrow>
          (let p1 = (if maxPolyphony p \<le> int (length (sources p))
                     then (case shift (sources p) of
                             (Some oldestSource, r) \<Rightarrow>
                               p\<lparr>sources := r, trace := trace p @ halt oldestSource\<rparr>
                           | (None, r) \<Rightarrow> p\<lparr>sources := r\<rparr>)
                     else p);
               source = \<lparr>vid = nextId p1, vbuffer = b, vloop = loop p1, vrate = playbackRate p1\<rparr>;
               p2 = p1\<lparr>nextId := nextId p1 + 1, trace := trace p1 @ [SrcConnect (vid source)]\<rparr>;
               p3 = (if \<not> loop p2
                     then p2\<lparr>sources := sources p2 @ [source],
                             handlers := handlers p2 @ [vid source]\<rparr>
                     else (let q = stopAllSources p2 in q\<lparr>sources := sources q @ [source]\<rparr>))
           in p3\<lparr>trace := trace p3 @ [SrcStart (vid source) (offset p3)]\<rparr>))"

text \<open>
  \<open>play\<close> run to completion, the load included when there is one. The first component
  is how the returned promise settles.
\<close>

definition play :: "net \<Rightarrow> state \<Rightarrow> (load_error + unit) \<times> state" where
  "play fetch s =
     (case s of (w, p) \<Rightarrow>
        (if buffer p = None
         then (case loadAudio fetch (w, p) of
                 (Inl e, s1) \<Rightarrow> (Inl e, s1)
               | (Inr u, (w1, p1)) \<Rightarrow> (Inr (), (w1, play_resume p1)))
         else (Inr (), (w, play_resume p))))"

text \<open>The \<open>onended\<close> closure of the source node \<open>i\<close>.\<close>

fun splice_first :: "nat \<Rightarrow> voice list \<Rightarrow> voice list" where
  "splice_first i [] = []"
| "splice_first i (v # vs) = (if vid v = i then vs else v # splice_first i vs)"

definition onended :: "nat \<Rightarrow> player \<Rightarrow> player" where
  "onended i p =
     (let p1 = p\<lparr>sources := splice_first i (sources p)\<rparr>
      in case endedPromiseResolver p1 of
           Some r \<Rightarrow>
             (if length (sources p1) = 0
              then p1\<lparr>trace := trace p1 @ [Resolve r], endedPromiseResolver := None\<rparr>
              else p1)
         | None \<Rightarrow> p1)"

definition stop :: "player \<Rightarrow> player" where
  "stop p = (stopAllSources p)\<lparr>offset := Fin 0\<rparr>"

text \<open>
  \<open>seek\<close> calls \<open>play\<close> and drops the promise; the buffer is there at that call, so
  \<open>play\<close> runs to its end before \<open>seek\<close> returns.
\<close>

definition seek :: "net \<Rightarrow> rat \<Rightarrow> state \<Rightarrow> state" where
  "seek fetch time s =
     (case s of (w, p) \<Rightarrow>
        (case buffer p of
           None \<Rightarrow> (w, p)
         | Some b \<Rightarrow>
             (let p1 = p\<lparr>offset := js_rem time (duration b)\<rparr>
              in if 0 < length (sources p1)
                 then snd (play fetch (w, stopAllSources p1))
                 else (w, p1))))"

text \<open>The promise \<open>whenAllEnded\<close> returns: already resolved, or pending under a fresh identity.\<close>

datatype promise = Settled | Pending nat

definition whenAllEnded :: "player \<Rightarrow> promise \<times> player" where
  "whenAllEnded p =
     (if length (sources p) = 0 then (Settled, p)
      else (Pending (nextId p),
            p\<lparr>endedPromiseResolver := Some (nextId p), nextId := nextId p + 1\<rparr>))"

definition dispose :: "bool \<Rightarrow> state \<Rightarrow> state" where
  "dispose removeFromCache s =
     (case s of (w, p) \<Rightarrow>
        (let p1 = stopAllSources p;
             p2 = p1\<lparr>trace := trace p1 @ [PannerDisconnect, GainDisconnect]\<rparr>;
             w1 = (if removeFromCache \<and> sourcePath p2 \<noteq> []
                   then w\<lparr>streamCache := (streamCache w)(sourcePath p2 := None)\<rparr>
                   else w)
         in (w1, p2\<lparr>buffer := None, loop := False, playbackRate := 1, offset := Fin 0,
                     endedPromiseResolver := None\<rparr>)))"

function setLoopLoop :: "bool \<Rightarrow> nat \<Rightarrow> player \<Rightarrow> player" where
  "setLoopLoop v index p =
     (if index < length (sources p)
      then setLoopLoop v (index + 1)
             (p\<lparr>sources := (sources p)[index := (sources p ! index)\<lparr>vloop := v\<rparr>]\<rparr>)
      else p)"
  by pat_completeness auto
termination
  by (relation "measure (\<lambda>(v, index, p). length (sources p) - index)") auto

declare setLoopLoop.simps [simp del]

definition set_loop :: "bool \<Rightarrow> player \<Rightarrow> player" where
  "set_loop v p = setLoopLoop v 0 (p\<lparr>loop := v\<rparr>)"

definition set_maxPolyphony :: "int \<Rightarrow> player \<Rightarrow> player" where
  "set_maxPolyphony v p = p\<lparr>maxPolyphony := v\<rparr>"

function setRateLoop :: "rat \<Rightarrow> nat \<Rightarrow> player \<Rightarrow> player" where
  "setRateLoop v index p =
     (if index < length (sources p)
      then setRateLoop v (index + 1)
             (p\<lparr>trace := trace p @ [SrcSetRate (vid (sources p ! index)) v]\<rparr>)
      else p)"
  by pat_completeness auto
termination
  by (relation "measure (\<lambda>(v, index, p). length (sources p) - index)") auto

declare setRateLoop.simps [simp del]

definition set_playbackRate :: "rat \<Rightarrow> player \<Rightarrow> player" where
  "set_playbackRate v p = setRateLoop v 0 (p\<lparr>playbackRate := v\<rparr>)"

section \<open>Runs of the public interface\<close>

text \<open>
  What the host can do to a player: call a method, assign a property, deliver the
  \<open>ended\<close> event of a source node, or let a \<open>play\<close> that was suspended on its load go
  on (\<open>Resume\<close>). \<open>Play\<close> and \<open>LoadAudio\<close> are the calls run to completion.
\<close>

datatype event =
    Play
  | LoadAudio
  | Resume
  | Stop
  | Seek rat
  | WhenAllEnded
  | Dispose bool
  | SetLoop bool
  | SetPlaybackRate rat
  | SetMaxPolyphony int
  | Ended nat

fun step :: "net \<Rightarrow> event \<Rightarrow> state \<Rightarrow> state" where
  "step fetch Play s = snd (play fetch s)"
| "step fetch LoadAudio s = snd (loadAudio fetch s)"
| "step fetch Resume (w, p) = (w, play_resume p)"
| "step fetch Stop (w, p) = (w, stop p)"
| "step fetch (Seek t) s = seek fetch t s"
| "step fetch WhenAllEnded (w, p) = (w, snd (whenAllEnded p))"
| "step fetch (Dispose r) s = dispose r s"
| "step fetch (SetLoop v) (w, p) = (w, set_loop v p)"
| "step fetch (SetPlaybackRate v) (w, p) = (w, set_playbackRate v p)"
| "step fetch (SetMaxPolyphony v) (w, p) = (w, set_maxPolyphony v p)"
| "step fetch (Ended i) (w, p) = (w, if i \<in> set (handlers p) then onended i p else p)"

fun run :: "net \<Rightarrow> event list \<Rightarrow> state \<Rightarrow> state" where
  "run fetch [] s = s"
| "run fetch (e # es) s = run fetch es (step fetch e s)"

text \<open>The active set is within the ceiling, and the ceiling is at least 1.\<close>

definition within_ceiling :: "state \<Rightarrow> bool" where
  "within_ceiling s = (1 \<le> maxPolyphony (snd s) \<and> int (length (sources (snd s))) \<le> maxPolyphony (snd s))"

text \<open>
  A run in which no assignment to \<open>maxPolyphony\<close> sets it below 1 or below the number
  of voices active at that moment.
\<close>

fun ceiling_kept :: "net \<Rightarrow> event list \<Rightarrow> state \<Rightarrow> bool" where
  "ceiling_kept fetch [] s = True"
| "ceiling_kept fetch (e # es) s =
     ((case e of
         SetMaxPolyphony v \<Rightarrow> 1 \<le> v \<and> int (length (sources (snd s))) \<le> v
       | _ \<Rightarrow> True)
      \<and> ceiling_kept fetch es (step fetch e s))"

section \<open>Reading a trace\<close>

fun stopped :: "call list \<Rightarrow> nat list" where
  "stopped [] = []"
| "stopped (SrcStop i # cs) = i # stopped cs"
| "stopped (c # cs) = stopped cs"

fun disconnected :: "call list \<Rightarrow> nat list" where
  "disconnected [] = []"
| "disconnected (SrcDisconnect i # cs) = i # disconnected cs"
| "disconnected (c # cs) = disconnected cs"

fun resolved :: "call list \<Rightarrow> nat list" where
  "resolved [] = []"
| "resolved (Resolve r # cs) = r # resolved cs"
| "resolved (c # cs) = resolved cs"

fun started :: "call list \<Rightarrow> (nat \<times> jsnum) list" where
  "started [] = []"
| "started (SrcStart i t # cs) = (i, t) # started cs"
| "started (c # cs) = started cs"

section \<open>The remainder as the specification words it\<close>

text \<open>
  \<open>time mod bufferDuration\<close>, wrapping around: what is left of \<open>time\<close> after taking
  out whole durations.
\<close>

definition spec_mod :: "rat \<Rightarrow> rat \<Rightarrow> rat" where
  "spec_mod t d = t - d * of_int \<lfloor>t / d\<rfloor>"

section \<open>The earlier version of the class\<close>





























section \<open>Sample values\<close>

definition sample_buffer :: buffer where
  "sample_buffer = \<lparr>content = 1, duration = 10\<rparr>"

definition serving_fetch :: net where
  "serving_fetch = (\<lambda>url. Inr sample_buffer)"

definition failing_fetch :: net where
  "failing_fetch = (\<lambda>url. Inl FetchFailed)"

definition empty_world :: world where
  "empty_world = \<lparr>streamCache = Map.empty, fetched = []\<rparr>"

definition default_options :: options where
  "default_options = \<lparr>opt_useCache = None, opt_maxPolyphony = None\<rparr>"

text \<open>A player after a successful \<open>loadAudio\<close> and \<open>maxPolyphony = 2\<close>.\<close>

definition loaded_player :: player where
  "loaded_player =
     (new_player ''energy.mp3'' default_options)\<lparr>buffer := Some sample_buffer, maxPolyphony := 2\<rparr>"

text \<open>A player whose source path is the empty string, and a cache holding that key.\<close>

definition unnamed_player :: player where
  "unnamed_player = new_player [] default_options"

definition unnamed_world :: world where
  "unnamed_world = \<lparr>streamCache = [[] \<mapsto> sample_buffer], fetched = []\<rparr>"

text \<open>The source node a non-looping \<open>play\<close> of player \<open>p\<close> creates under identity \<open>i\<close>.\<close>

definition fresh_voice :: "player \<Rightarrow> buffer \<Rightarrow> nat \<Rightarrow> voice" where
  "fresh_voice p b i = \<lparr>vid = i, vbuffer = b, vloop = False, vrate = playbackRate p\<rparr>"

section \<open>The loops in closed form\<close>

lemma stopLoop_closed:
  "stopLoop i p = p\<lparr>trace := trace p @ concat (map halt (drop i (sources p)))\<rparr>"
proof (induction i p rule: stopLoop.induct)
  case (1 index p)
  show ?case
  proof (cases "index < length (sources p)")
    case True
    have "drop index (sources p) = sources p ! index # drop (Suc index) (sources p)"
      using True by (simp add: Cons_nth_drop_Suc)
    with 1 True show ?thesis
      by (subst stopLoop.simps) simp
  next
    case False
    then show ?thesis
      by (subst stopLoop.simps) simp
  qed
qed

lemma stopAllSources_closed:
  "stopAllSources p =
     p\<lparr>sources := [],
       endedPromiseResolver := None,
       trace := trace p @ concat (map halt (sources p)) @
                (case endedPromiseResolver p of None \<Rightarrow> [] | Some r \<Rightarrow> [Resolve r])\<rparr>"
  by (cases "endedPromiseResolver p") (simp_all add: stopAllSources_def stopLoop_closed)

lemma stopped_append: "stopped (xs @ ys) = stopped xs @ stopped ys"
  by (induction xs rule: stopped.induct) simp_all

lemma disconnected_append: "disconnected (xs @ ys) = disconnected xs @ disconnected ys"
  by (induction xs rule: disconnected.induct) simp_all

lemma resolved_append: "resolved (xs @ ys) = resolved xs @ resolved ys"
  by (induction xs rule: resolved.induct) simp_all

lemma started_append: "started (xs @ ys) = started xs @ started ys"
  by (induction xs rule: started.induct) simp_all

lemma stopped_halts: "stopped (concat (map halt vs)) = map vid vs"
  by (induction vs) (simp_all add: halt_def)

lemma disconnected_halts: "disconnected (concat (map halt vs)) = map vid vs"
  by (induction vs) (simp_all add: halt_def)

lemma resolved_halts: "resolved (concat (map halt vs)) = []"
  by (induction vs) (simp_all add: halt_def)

lemma started_halts: "started (concat (map halt vs)) = []"
  by (induction vs) (simp_all add: halt_def)

lemma setLoopLoop_closed:
  "setLoopLoop v i p =
     p\<lparr>sources := take i (sources p) @ map (\<lambda>s. s\<lparr>vloop := v\<rparr>) (drop i (sources p))\<rparr>"
proof (induction v i p rule: setLoopLoop.induct)
  case (1 v index p)
  show ?case
  proof (cases "index < length (sources p)")
    case True
    have d: "drop index (sources p) = sources p ! index # drop (Suc index) (sources p)"
      using True by (simp add: Cons_nth_drop_Suc)
    have t: "take (Suc index) ((sources p)[index := y]) = take index (sources p) @ [y]" for y
      using True by (simp add: take_Suc_conv_app_nth)
    from 1 True show ?thesis
      by (subst setLoopLoop.simps) (simp add: d t)
  next
    case False
    then show ?thesis
      by (subst setLoopLoop.simps) simp
  qed
qed

lemma set_loop_closed:
  "set_loop v p = p\<lparr>loop := v, sources := map (\<lambda>s. s\<lparr>vloop := v\<rparr>) (sources p)\<rparr>"
  by (simp add: set_loop_def setLoopLoop_closed)

lemma setRateLoop_closed:
  "setRateLoop v i p =
     p\<lparr>trace := trace p @ map (\<lambda>s. SrcSetRate (vid s) v) (drop i (sources p))\<rparr>"
proof (induction v i p rule: setRateLoop.induct)
  case (1 v index p)
  show ?case
  proof (cases "index < length (sources p)")
    case True
    have d: "drop index (sources p) = sources p ! index # drop (Suc index) (sources p)"
      using True by (simp add: Cons_nth_drop_Suc)
    from 1 True show ?thesis
      by (subst setRateLoop.simps) (simp add: d)
  next
    case False
    then show ?thesis
      by (subst setRateLoop.simps) simp
  qed
qed

lemma set_playbackRate_closed:
  "set_playbackRate v p =
     p\<lparr>playbackRate := v,
       trace := trace p @ map (\<lambda>s. SrcSetRate (vid s) v) (sources p)\<rparr>"
  by (simp add: set_playbackRate_def setRateLoop_closed)

text \<open>\<open>play\<close> with the buffer in place: no load, the promise resolves.\<close>

lemma play_loaded:
  "buffer p = Some b \<Longrightarrow> play fetch (w, p) = (Inr (), (w, play_resume p))"
  by (simp add: play_def)

text \<open>The three ways through \<open>play\<close> once the buffer is there.\<close>

lemma play_resume_loop:
  assumes "buffer p = Some b" "loop p"
  shows "play_resume p =
     p\<lparr>sources := [\<lparr>vid = nextId p, vbuffer = b, vloop = True, vrate = playbackRate p\<rparr>],
       endedPromiseResolver := None,
       nextId := nextId p + 1,
       trace := trace p @
         (if maxPolyphony p \<le> int (length (sources p))
          then concat (map halt (take 1 (sources p))) @ [SrcConnect (nextId p)] @
               concat (map halt (drop 1 (sources p)))
          else [SrcConnect (nextId p)] @ concat (map halt (sources p))) @
         (case endedPromiseResolver p of None \<Rightarrow> [] | Some r \<Rightarrow> [Resolve r]) @
         [SrcStart (nextId p) (offset p)]\<rparr>"
  using assms
  by (cases "sources p"; cases "endedPromiseResolver p")
     (simp_all add: play_resume_def shift_def stopAllSources_closed Let_def)

lemma play_resume_room:
  assumes "buffer p = Some b" "\<not> loop p" "int (length (sources p)) < maxPolyphony p"
  shows "play_resume p =
     p\<lparr>sources := sources p @ [\<lparr>vid = nextId p, vbuffer = b, vloop = False, vrate = playbackRate p\<rparr>],
       handlers := handlers p @ [nextId p],
       nextId := nextId p + 1,
       trace := trace p @ [SrcConnect (nextId p), SrcStart (nextId p) (offset p)]\<rparr>"
  using assms by (simp add: play_resume_def Let_def)

lemma play_resume_evict:
  assumes "buffer p = Some b" "\<not> loop p" "maxPolyphony p \<le> int (length (sources p))"
    "sources p = v # vs"
  shows "play_resume p =
     p\<lparr>sources := vs @ [\<lparr>vid = nextId p, vbuffer = b, vloop = False, vrate = playbackRate p\<rparr>],
       handlers := handlers p @ [nextId p],
       nextId := nextId p + 1,
       trace := trace p @ halt v @ [SrcConnect (nextId p), SrcStart (nextId p) (offset p)]\<rparr>"
  using assms by (simp add: play_resume_def shift_def Let_def)

lemma run_append: "run fetch (xs @ ys) s = run fetch ys (run fetch xs s)"
  by (induction xs arbitrary: s) simp_all

lemma run_replicate_Suc:
  "run fetch (replicate (Suc k) e) s = step fetch e (run fetch (replicate k e) s)"
proof -
  have "replicate (Suc k) e = replicate k e @ [e]"
    by (simp add: replicate_append_same)
  then show ?thesis
    by (simp only: run_append) simp
qed

section \<open>stop\<close>

text \<open>
  C7. \<open>stop()\<close>, in any state, calls \<open>stop\<close> and \<open>disconnect\<close> on every source node of
  the active set, oldest first, leaves the set empty and the offset at 0, and when a
  resolver of \<open>whenAllEnded\<close> is pending it calls it and clears it: nothing else is
  called and no other field changes.
\<close>

theorem stop_teardown:
  "stop p =
     p\<lparr>sources := [],
       offset := Fin 0,
       endedPromiseResolver := None,
       trace := trace p @ concat (map (\<lambda>v. [SrcStop (vid v), SrcDisconnect (vid v)]) (sources p)) @
                (case endedPromiseResolver p of None \<Rightarrow> [] | Some r \<Rightarrow> [Resolve r])\<rparr>"
proof -
  have "halt = (\<lambda>v. [SrcStop (vid v), SrcDisconnect (vid v)])"
    by (rule ext) (simp add: halt_def)
  then show ?thesis
    by (simp add: stop_def stopAllSources_closed)
qed

section \<open>Polyphony\<close>

text \<open>The first \<open>k\<close> calls of \<open>play\<close>, up to the ceiling, only add voices.\<close>

lemma plays_fill:
  assumes "buffer p = Some b" "sources p = []" "\<not> loop p" "maxPolyphony p = int n"
  shows "k \<le> n \<Longrightarrow> run fetch (replicate k Play) (w, p) =
     (w, p\<lparr>sources := map (fresh_voice p b) [nextId p..<nextId p + k],
           handlers := handlers p @ [nextId p..<nextId p + k],
           nextId := nextId p + k,
           trace := trace p @
             concat (map (\<lambda>i. [SrcConnect i, SrcStart i (offset p)]) [nextId p..<nextId p + k])\<rparr>)"
proof (induction k)
  case 0
  show ?case using assms(2) by simp
next
  case (Suc k)
  let ?q = "p\<lparr>sources := map (fresh_voice p b) [nextId p..<nextId p + k],
           handlers := handlers p @ [nextId p..<nextId p + k],
           nextId := nextId p + k,
           trace := trace p @
             concat (map (\<lambda>i. [SrcConnect i, SrcStart i (offset p)]) [nextId p..<nextId p + k])\<rparr>"
  have ih: "run fetch (replicate k Play) (w, p) = (w, ?q)"
    using Suc by simp
  have q: "buffer ?q = Some b" "\<not> loop ?q" "int (length (sources ?q)) < maxPolyphony ?q"
    using assms Suc.prems by simp_all
  show ?case
    by (simp only: run_replicate_Suc ih step.simps play_loaded [OF q(1)] snd_conv
          play_resume_room [OF q])
       (simp add: fresh_voice_def)
qed

text \<open>
  C1. With \<open>maxPolyphony = n\<close>, \<open>n \<ge> 1\<close>, a loaded buffer, no active voice and
  \<open>loop = false\<close>, \<open>n + 1\<close> calls of \<open>play()\<close> with no \<open>ended\<close> event in between
  start the source nodes \<open>nextId .. nextId + n\<close> in this order, leave the last \<open>n\<close>
  of them active, and call \<open>stop\<close> and \<open>disconnect\<close> on one source node only: the
  first one started.
\<close>

theorem polyphony_evicts_oldest:
  assumes "buffer p = Some b" "sources p = []" "\<not> loop p" "maxPolyphony p = int n" "1 \<le> n"
  shows "case run fetch (replicate (n + 1) Play) (w, p) of (w', p') \<Rightarrow>
     length (sources p') = n \<and>
     map vid (sources p') = [nextId p + 1..<nextId p + n + 1] \<and>
     map fst (started (trace p')) = map fst (started (trace p)) @ [nextId p..<nextId p + n + 1] \<and>
     stopped (trace p') = stopped (trace p) @ [nextId p] \<and>
     disconnected (trace p') = disconnected (trace p) @ [nextId p]"
proof -
  let ?ids = "[nextId p..<nextId p + n]"
  let ?q = "p\<lparr>sources := map (fresh_voice p b) ?ids,
           handlers := handlers p @ ?ids,
           nextId := nextId p + n,
           trace := trace p @
             concat (map (\<lambda>i. [SrcConnect i, SrcStart i (offset p)]) ?ids)\<rparr>"
  have fill: "run fetch (replicate n Play) (w, p) = (w, ?q)"
    using plays_fill [OF assms(1-4), of n] by simp
  have ids: "?ids = nextId p # [nextId p + 1..<nextId p + n]"
    using assms(5) by (simp add: upt_conv_Cons)
  have q: "buffer ?q = Some b" "\<not> loop ?q" "maxPolyphony ?q \<le> int (length (sources ?q))"
    "sources ?q = fresh_voice p b (nextId p) # map (fresh_voice p b) [nextId p + 1..<nextId p + n]"
    using assms ids by simp_all
  have tr: "stopped (concat (map (\<lambda>i. [SrcConnect i, SrcStart i t]) xs)) = []"
    "disconnected (concat (map (\<lambda>i. [SrcConnect i, SrcStart i t]) xs)) = []"
    "map fst (started (concat (map (\<lambda>i. [SrcConnect i, SrcStart i t]) xs))) = xs" for t xs
    by (induction xs) simp_all
  have eq: "run fetch (replicate (n + 1) Play) (w, p) = (w, play_resume ?q)"
    by (simp only: Suc_eq_plus1 [symmetric] run_replicate_Suc fill step.simps
        play_loaded [OF q(1)] snd_conv)
  show ?thesis
    unfolding eq play_resume_evict [OF q]
    using assms(5)
    by (simp add: fresh_voice_def comp_def halt_def stopped_append disconnected_append
          started_append tr)
qed

theorem polyphony_evicts_oldest_witness:
  "buffer loaded_player = Some sample_buffer \<and> sources loaded_player = [] \<and>
   \<not> loop loaded_player \<and> maxPolyphony loaded_player = int 2 \<and> 1 \<le> (2::nat) \<and>
   (case run serving_fetch [Play, Play, Play] (empty_world, loaded_player) of (w', p') \<Rightarrow>
      length (sources p') = 2 \<and> map vid (sources p') = [1, 2] \<and>
      map fst (started (trace p')) = [0, 1, 2] \<and>
      stopped (trace p') = [0] \<and> disconnected (trace p') = [0])"
proof -
  have h: "buffer loaded_player = Some sample_buffer" "sources loaded_player = []"
    "\<not> loop loaded_player" "maxPolyphony loaded_player = int 2" "1 \<le> (2::nat)"
    by (simp_all add: loaded_player_def new_player_def)
  have n: "nextId loaded_player = 0" "trace loaded_player = []"
    by (simp_all add: loaded_player_def new_player_def)
  have r: "replicate (2 + 1) Play = [Play, Play, Play]"
    by (simp add: numeral_eq_Suc)
  obtain w' p' where e: "run serving_fetch [Play, Play, Play] (empty_world, loaded_player) = (w', p')"
    by (meson surj_pair)
  have "case run serving_fetch (replicate (2 + 1) Play) (empty_world, loaded_player) of
          (w', p') \<Rightarrow>
     length (sources p') = 2 \<and>
     map vid (sources p') = [nextId loaded_player + 1..<nextId loaded_player + 2 + 1] \<and>
     map fst (started (trace p')) =
       map fst (started (trace loaded_player)) @ [nextId loaded_player..<nextId loaded_player + 2 + 1] \<and>
     stopped (trace p') = stopped (trace loaded_player) @ [nextId loaded_player] \<and>
     disconnected (trace p') = disconnected (trace loaded_player) @ [nextId loaded_player]"
    by (rule polyphony_evicts_oldest [OF h])
  then have "length (sources p') = 2 \<and> map vid (sources p') = [1, 2] \<and>
      map fst (started (trace p')) = [0, 1, 2] \<and>
      stopped (trace p') = [0] \<and> disconnected (trace p') = [0]"
    unfolding r e by (simp add: n upt_conv_Cons)
  then show ?thesis
    using h unfolding e by simp
qed

section \<open>Looping\<close>

text \<open>
  C2. In any state with a loaded buffer, whatever the active voices, setting
  \<open>loop = true\<close> and then calling \<open>play()\<close> leaves exactly one voice in the active set,
  the new looping one; \<open>stop\<close> and \<open>disconnect\<close> have been called once on every voice
  that was active before, and the new voice is the only one started.
\<close>

theorem loop_play_single_voice:
  assumes "buffer p = Some b"
  shows "case play fetch (w, set_loop True p) of (r, (w', p')) \<Rightarrow>
     r = Inr () \<and> w' = w \<and>
     length (sources p') = 1 \<and>
     sources p' = [\<lparr>vid = nextId p, vbuffer = b, vloop = True, vrate = playbackRate p\<rparr>] \<and>
     stopped (trace p') = stopped (trace p) @ map vid (sources p) \<and>
     disconnected (trace p') = disconnected (trace p) @ map vid (sources p) \<and>
     started (trace p') = started (trace p) @ [(nextId p, offset p)]"
proof -
  let ?q = "set_loop True p"
  have q: "buffer ?q = Some b" "loop ?q" "map vid (sources ?q) = map vid (sources p)"
    "nextId ?q = nextId p" "trace ?q = trace p" "playbackRate ?q = playbackRate p"
    "offset ?q = offset p"
    using assms by (simp_all add: set_loop_closed comp_def)
  have pl: "play fetch (w, ?q) = (Inr (), (w, play_resume ?q))"
    using q(1) by (rule play_loaded)
  have hs: "map vid (take 1 (sources ?q)) @ map vid (drop 1 (sources ?q)) = map vid (sources p)"
    using q(3) by (metis append_take_drop_id map_append)
  show ?thesis
    unfolding pl
    apply (subst play_resume_loop [OF q(1) q(2)])+
    using hs
    apply (cases "endedPromiseResolver ?q")
    apply (simp_all add: q stopped_append disconnected_append started_append stopped_halts
        disconnected_halts started_halts)
    done
qed

theorem loop_play_single_voice_witness:
  "buffer (snd (run serving_fetch [Play, Play] (empty_world, loaded_player))) = Some sample_buffer \<and>
   length (sources (snd (run serving_fetch [Play, Play] (empty_world, loaded_player)))) = 2 \<and>
   (case play serving_fetch
           (empty_world, set_loop True (snd (run serving_fetch [Play, Play] (empty_world, loaded_player))))
    of (r, (w', p')) \<Rightarrow>
      r = Inr () \<and> length (sources p') = 1 \<and> map vid (sources p') = [2] \<and>
      stopped (trace p') = [0, 1] \<and> disconnected (trace p') = [0, 1])"
proof -
  let ?p = "snd (run serving_fetch [Play, Play] (empty_world, loaded_player))"
  have p: "?p = loaded_player\<lparr>
      sources := [fresh_voice loaded_player sample_buffer 0, fresh_voice loaded_player sample_buffer 1],
      handlers := [0, 1], nextId := 2,
      trace := [SrcConnect 0, SrcStart 0 (Fin 0), SrcConnect 1, SrcStart 1 (Fin 0)]\<rparr>"
    by (simp add: loaded_player_def new_player_def play_def play_resume_def fresh_voice_def Let_def)
  have h: "buffer ?p = Some sample_buffer"
    unfolding p by (simp add: loaded_player_def)
  show ?thesis
    using h loop_play_single_voice [OF h, where fetch = serving_fetch and w = empty_world]
    unfolding p
    by (simp add: fresh_voice_def loaded_player_def new_player_def split: prod.splits)
qed

section \<open>play without a buffer\<close>

lemma loadAudioWithCaching_cases:
  "loadAudioWithCaching fetch url w =
     (case streamCache w url of
        Some b \<Rightarrow> (w, Inr b)
      | None \<Rightarrow>
          (case fetch url of
             Inl e \<Rightarrow> (w\<lparr>fetched := fetched w @ [url]\<rparr>, Inl e)
           | Inr b \<Rightarrow> (w\<lparr>fetched := fetched w @ [url],
                         streamCache := (streamCache w)(url \<mapsto> b)\<rparr>, Inr b)))"
  by (simp add: loadAudioWithCaching_def loadAudioBuffer_def split: option.splits sum.splits)

lemma loadAudio_fails:
  assumes "fst (loadAudio fetch (w, p)) = Inl e"
  shows "loadAudio fetch (w, p) = (Inl e, (w\<lparr>fetched := fetched w @ [sourcePath p]\<rparr>, p))"
  using assms
  by (auto simp add: loadAudio_def loadAudioWithCaching_cases loadAudioBuffer_def
      split: option.splits sum.splits if_splits)

text \<open>
  C4 (as amended). When \<open>play()\<close> is called with no buffer and the load it awaits fails
  with error \<open>e\<close>, no voice is created and no field of the player changes (the active
  set included), the fetch has been made, and the promise \<open>play()\<close> returned is
  rejected with \<open>e\<close>: the error of the load reaches the caller of \<open>play()\<close>.
\<close>

theorem play_failed_load:
  assumes "buffer p = None" "fst (loadAudio fetch (w, p)) = Inl e"
  shows "play fetch (w, p) = (Inl e, (w\<lparr>fetched := fetched w @ [sourcePath p]\<rparr>, p))"
  using assms(1) by (simp add: play_def loadAudio_fails [OF assms(2)])

theorem play_failed_load_witness:
  "buffer (new_player ''energy.mp3'' default_options) = None \<and>
   fst (loadAudio failing_fetch (empty_world, new_player ''energy.mp3'' default_options)) = Inl FetchFailed \<and>
   fst (play failing_fetch (empty_world, new_player ''energy.mp3'' default_options)) = Inl FetchFailed \<and>
   sources (snd (snd (play failing_fetch (empty_world, new_player ''energy.mp3'' default_options)))) = []"
proof -
  let ?p = "new_player ''energy.mp3'' default_options"
  have h1: "buffer ?p = None"
    by (simp add: new_player_def)
  have h2: "fst (loadAudio failing_fetch (empty_world, ?p)) = Inl FetchFailed"
    by (simp add: loadAudio_def loadAudioWithCaching_cases new_player_def default_options_def
        empty_world_def failing_fetch_def)
  show ?thesis
    using h1 h2 play_failed_load [OF h1 h2] by (simp add: new_player_def)
qed

text \<open>
  C4 as stated, that no error reaches the caller of \<open>play()\<close>, is false: on a new
  player whose fetch fails, the promise of \<open>play()\<close> does not resolve.
\<close>

theorem play_failed_load_surfaces_error:
  "fst (play failing_fetch (empty_world, new_player ''energy.mp3'' default_options)) \<noteq> Inr ()"
  by (simp add: play_def loadAudio_def loadAudioWithCaching_cases new_player_def default_options_def
        empty_world_def failing_fetch_def)

section \<open>seek\<close>

lemma spec_mod_range:
  assumes "0 < d"
  shows "0 \<le> spec_mod t d" "spec_mod t d < d"
proof -
  have "of_int \<lfloor>t / d\<rfloor> * d \<le> t"
    using assms by (rule floor_divide_lower)
  then show "0 \<le> spec_mod t d"
    by (simp add: spec_mod_def mult.commute)
  have "t < (of_int \<lfloor>t / d\<rfloor> + 1) * d"
    using assms by (rule floor_divide_upper)
  then show "spec_mod t d < d"
    by (simp add: spec_mod_def algebra_simps)
qed

lemma js_rem_spec_mod:
  assumes "0 \<le> t" "0 < d"
  shows "js_rem t d = Fin (spec_mod t d)"
  using assms by (simp add: js_rem_def js_trunc_def spec_mod_def)

lemma play_resume_restart:
  assumes "buffer q = Some b" "sources q = []" "endedPromiseResolver q = None"
  shows "play_resume q =
     q\<lparr>sources := [\<lparr>vid = nextId q, vbuffer = b, vloop = loop q, vrate = playbackRate q\<rparr>],
       handlers := (if loop q then handlers q else handlers q @ [nextId q]),
       nextId := nextId q + 1,
       trace := trace q @ [SrcConnect (nextId q), SrcStart (nextId q) (offset q)]\<rparr>"
  using assms
  by (cases "loop q")
     (simp_all add: play_resume_def shift_def stopAllSources_closed Let_def)

text \<open>
  C6. \<open>seek(time)\<close> without a buffer changes nothing. With a buffer, the new offset is
  the remainder \<open>time % duration\<close>; for \<open>time \<ge> 0\<close> and a positive duration this is
  \<open>time mod duration\<close>, a value in \<open>[0, duration)\<close> (duration 10 and \<open>seek(13)\<close> give
  3). If no voice was active nothing else happens; otherwise every active voice gets
  \<open>stop\<close> and \<open>disconnect\<close>, and \<open>play\<close> starts one new voice at the new offset, which
  is then the only active one.
\<close>

theorem seek_wraps:
  "case buffer p of
     None \<Rightarrow> seek fetch t (w, p) = (w, p)
   | Some b \<Rightarrow>
       (case seek fetch t (w, p) of (w', p') \<Rightarrow>
          w' = w \<and>
          offset p' = js_rem t (duration b) \<and>
          (0 \<le> t \<and> 0 < duration b \<longrightarrow>
             offset p' = Fin (spec_mod t (duration b)) \<and>
             0 \<le> spec_mod t (duration b) \<and> spec_mod t (duration b) < duration b) \<and>
          (if sources p = []
           then sources p' = [] \<and> trace p' = trace p
           else sources p' =
                  [\<lparr>vid = nextId p, vbuffer = b, vloop = loop p, vrate = playbackRate p\<rparr>] \<and>
                stopped (trace p') = stopped (trace p) @ map vid (sources p) \<and>
                disconnected (trace p') = disconnected (trace p) @ map vid (sources p) \<and>
                started (trace p') = started (trace p) @ [(nextId p, offset p')]))"
proof (cases "buffer p")
  case None
  then show ?thesis by (simp add: seek_def)
next
  case (Some b)
  have rng: "0 \<le> t \<and> 0 < duration b \<longrightarrow>
      js_rem t (duration b) = Fin (spec_mod t (duration b)) \<and>
      0 \<le> spec_mod t (duration b) \<and> spec_mod t (duration b) < duration b"
    by (simp add: js_rem_spec_mod spec_mod_range)
  show ?thesis
  proof (cases "sources p = []")
    case True
    then show ?thesis
      using Some rng by (simp add: seek_def Let_def)
  next
    case False
    let ?q = "stopAllSources (p\<lparr>offset := js_rem t (duration b)\<rparr>)"
    have q: "buffer ?q = Some b" "sources ?q = []" "endedPromiseResolver ?q = None"
      using Some by (simp_all add: stopAllSources_closed)
    have sk: "seek fetch t (w, p) = (w, play_resume ?q)"
      using Some False by (simp add: seek_def Let_def play_loaded [OF q(1)])
    show ?thesis
      unfolding sk play_resume_restart [OF q]
      using Some False rng
      by (cases "endedPromiseResolver p")
         (simp_all add: stopAllSources_closed stopped_append disconnected_append
            started_append stopped_halts disconnected_halts started_halts)
  qed
qed

theorem seek_wraps_witness:
  "buffer (snd (run serving_fetch [Play] (empty_world, loaded_player))) = Some sample_buffer \<and>
   (0::rat) \<le> 13 \<and> 0 < duration sample_buffer \<and>
   (case seek serving_fetch 13 (run serving_fetch [Play] (empty_world, loaded_player)) of
      (w', p') \<Rightarrow>
        offset p' = Fin 3 \<and> map vid (sources p') = [1] \<and> stopped (trace p') = [0] \<and>
        started (trace p') = [(0, Fin 0), (1, Fin 3)])"
proof -
  let ?p = "loaded_player\<lparr>
      sources := [fresh_voice loaded_player sample_buffer 0],
      handlers := [0], nextId := 1,
      trace := [SrcConnect 0, SrcStart 0 (Fin 0)]\<rparr>"
  have p: "run serving_fetch [Play] (empty_world, loaded_player) = (empty_world, ?p)"
    by (simp add: loaded_player_def new_player_def play_def play_resume_def fresh_voice_def Let_def)
  have h: "buffer ?p = Some sample_buffer" "(0::rat) \<le> 13" "0 < duration sample_buffer"
    by (simp_all add: loaded_player_def sample_buffer_def)
  have m: "spec_mod 13 (duration sample_buffer) = 3"
  proof -
    have "\<lfloor>13 / 10 :: rat\<rfloor> = 1"
      by (simp add: floor_eq_iff)
    then show ?thesis
      by (simp add: spec_mod_def sample_buffer_def)
  qed
  have j: "js_rem 13 (duration sample_buffer) = Fin 3"
    using js_rem_spec_mod [OF h(2) h(3)] by (simp add: m)
  show ?thesis
    using h seek_wraps [where p = ?p and fetch = serving_fetch and t = 13 and w = empty_world]
    unfolding p
    by (simp add: m j fresh_voice_def loaded_player_def new_player_def split: prod.splits)
qed

section \<open>The cached load\<close>

lemma loadAudio_cached:
  assumes "useCache p"
  shows "loadAudio fetch (w, p) =
     (case streamCache w (sourcePath p) of
        Some b \<Rightarrow> (Inr (), (w, p\<lparr>buffer := Some b\<rparr>))
      | None \<Rightarrow>
          (case fetch (sourcePath p) of
             Inl e \<Rightarrow> (Inl e, (w\<lparr>fetched := fetched w @ [sourcePath p]\<rparr>, p))
           | Inr b \<Rightarrow> (Inr (), (w\<lparr>fetched := fetched w @ [sourcePath p],
                         streamCache := (streamCache w)(sourcePath p \<mapsto> b)\<rparr>,
                         p\<lparr>buffer := Some b\<rparr>))))"
  using assms
  by (simp add: loadAudio_def loadAudioWithCaching_cases split: option.splits sum.splits)

text \<open>
  C8. \<open>loadAudioWithCaching\<close> looks the key up first; on a hit it returns the cached
  buffer and fetches nothing; on a miss it fetches, and when that succeeds stores the
  buffer under the key and returns it (when it fails, it stores nothing). So when two
  players with the same source path and \<open>useCache = true\<close> run \<open>loadAudio()\<close> one after
  the other and the first completes, the second completes too, whatever its fetch would
  have returned, without a fetch; both hold the same buffer, which is the entry of the
  cache under that key, and no other key of the cache has changed.
\<close>

theorem cached_load_shared:
  "(case streamCache w url of
      Some b \<Rightarrow> loadAudioWithCaching fetch url w = (w, Inr b)
    | None \<Rightarrow>
        (case fetch url of
           Inl e \<Rightarrow> loadAudioWithCaching fetch url w = (w\<lparr>fetched := fetched w @ [url]\<rparr>, Inl e)
         | Inr b \<Rightarrow>
             loadAudioWithCaching fetch url w =
               (w\<lparr>fetched := fetched w @ [url], streamCache := (streamCache w)(url \<mapsto> b)\<rparr>,
                Inr b)))
   \<and>
   (useCache pa \<and> useCache pb \<and> sourcePath pa = url \<and> sourcePath pb = url \<and>
    fst (loadAudio fetch (w, pa)) = Inr () \<longrightarrow>
      (case loadAudio fetch (w, pa) of (r1, (w1, q1)) \<Rightarrow>
       case loadAudio fetch' (w1, pb) of (r2, (w2, q2)) \<Rightarrow>
         r2 = Inr () \<and>
         buffer q1 \<noteq> None \<and> buffer q2 = buffer q1 \<and>
         streamCache w2 url = buffer q1 \<and>
         dom (streamCache w2) = insert url (dom (streamCache w)) \<and>
         (\<forall>k. k \<noteq> url \<longrightarrow> streamCache w2 k = streamCache w k) \<and>
         fetched w2 = fetched w1 \<and>
         fetched w1 = (if streamCache w url = None then fetched w @ [url] else fetched w)))"
proof (rule conjI)
  show "case streamCache w url of
      Some b \<Rightarrow> loadAudioWithCaching fetch url w = (w, Inr b)
    | None \<Rightarrow>
        (case fetch url of
           Inl e \<Rightarrow> loadAudioWithCaching fetch url w = (w\<lparr>fetched := fetched w @ [url]\<rparr>, Inl e)
         | Inr b \<Rightarrow>
             loadAudioWithCaching fetch url w =
               (w\<lparr>fetched := fetched w @ [url], streamCache := (streamCache w)(url \<mapsto> b)\<rparr>,
                Inr b))"
    by (simp add: loadAudioWithCaching_cases split: option.splits sum.splits)
next
  show "useCache pa \<and> useCache pb \<and> sourcePath pa = url \<and> sourcePath pb = url \<and>
    fst (loadAudio fetch (w, pa)) = Inr () \<longrightarrow>
      (case loadAudio fetch (w, pa) of (r1, (w1, q1)) \<Rightarrow>
       case loadAudio fetch' (w1, pb) of (r2, (w2, q2)) \<Rightarrow>
         r2 = Inr () \<and>
         buffer q1 \<noteq> None \<and> buffer q2 = buffer q1 \<and>
         streamCache w2 url = buffer q1 \<and>
         dom (streamCache w2) = insert url (dom (streamCache w)) \<and>
         (\<forall>k. k \<noteq> url \<longrightarrow> streamCache w2 k = streamCache w k) \<and>
         fetched w2 = fetched w1 \<and>
         fetched w1 = (if streamCache w url = None then fetched w @ [url] else fetched w))"
  proof
    assume a: "useCache pa \<and> useCache pb \<and> sourcePath pa = url \<and> sourcePath pb = url \<and>
      fst (loadAudio fetch (w, pa)) = Inr ()"
    show "case loadAudio fetch (w, pa) of (r1, (w1, q1)) \<Rightarrow>
       case loadAudio fetch' (w1, pb) of (r2, (w2, q2)) \<Rightarrow>
         r2 = Inr () \<and>
         buffer q1 \<noteq> None \<and> buffer q2 = buffer q1 \<and>
         streamCache w2 url = buffer q1 \<and>
         dom (streamCache w2) = insert url (dom (streamCache w)) \<and>
         (\<forall>k. k \<noteq> url \<longrightarrow> streamCache w2 k = streamCache w k) \<and>
         fetched w2 = fetched w1 \<and>
         fetched w1 = (if streamCache w url = None then fetched w @ [url] else fetched w)"
    proof (cases "streamCache w url")
      case (Some b)
      then show ?thesis
        using a by (auto simp add: loadAudio_cached)
    next
      case None
      then show ?thesis
        using a by (cases "fetch url") (auto simp add: loadAudio_cached)
    qed
  qed
qed

theorem cached_load_shared_witness:
  "(case loadAudio serving_fetch (empty_world, new_player ''energy.mp3'' default_options) of
      (r1, (w1, q1)) \<Rightarrow>
    case loadAudio failing_fetch (w1, new_player ''energy.mp3'' default_options) of
      (r2, (w2, q2)) \<Rightarrow>
        r1 = Inr () \<and> r2 = Inr () \<and> buffer q1 = Some sample_buffer \<and>
        buffer q2 = Some sample_buffer \<and>
        streamCache w2 ''energy.mp3'' = Some sample_buffer \<and>
        dom (streamCache w2) = {''energy.mp3''} \<and> fetched w2 = [''energy.mp3''])"
proof -
  let ?p = "new_player ''energy.mp3'' default_options"
  have h: "useCache ?p \<and> useCache ?p \<and> sourcePath ?p = ''energy.mp3'' \<and>
     sourcePath ?p = ''energy.mp3'' \<and> fst (loadAudio serving_fetch (empty_world, ?p)) = Inr ()"
    by (simp add: new_player_def default_options_def loadAudio_cached empty_world_def
        serving_fetch_def)
  have l: "loadAudio serving_fetch (empty_world, ?p) =
     (Inr (), (\<lparr>streamCache = [''energy.mp3'' \<mapsto> sample_buffer], fetched = [''energy.mp3'']\<rparr>,
       ?p\<lparr>buffer := Some sample_buffer\<rparr>))"
    by (simp add: new_player_def default_options_def loadAudio_cached empty_world_def
        serving_fetch_def)
  show ?thesis
    using h cached_load_shared [where w = empty_world and url = "''energy.mp3''"
        and fetch = serving_fetch and pa = ?p and pb = ?p and fetch' = failing_fetch]
    unfolding l
    by (simp add: empty_world_def split: prod.splits)
qed

section \<open>dispose\<close>

text \<open>
  C9 (as amended). \<open>dispose(removeFromCache)\<close>, in any state, does what \<open>stop()\<close> does,
  then disconnects the panner and the gain, and leaves \<open>loop = false\<close>,
  \<open>playbackRate = 1\<close>, \<open>offset = 0\<close> and no buffer. It deletes the source path from the
  cache if and only if \<open>removeFromCache\<close> is true and the source path is not the empty
  string; after such a deletion the \<open>loadAudio()\<close> of a caching player with the same
  source path fetches again.
\<close>

theorem dispose_teardown:
  "case dispose r (w, p) of (w', p') \<Rightarrow>
     p' = (stop p)\<lparr>trace := trace (stop p) @ [PannerDisconnect, GainDisconnect],
                   buffer := None, loop := False, playbackRate := 1\<rparr> \<and>
     sources p' = [] \<and> loop p' = False \<and> playbackRate p' = 1 \<and> offset p' = Fin 0 \<and>
     fetched w' = fetched w \<and>
     streamCache w' =
       (if r \<and> sourcePath p \<noteq> [] then (streamCache w)(sourcePath p := None) else streamCache w) \<and>
     (r \<and> sourcePath p \<noteq> [] \<and> useCache q \<and> sourcePath q = sourcePath p \<longrightarrow>
        fetched (fst (snd (loadAudio fetch (w', q)))) = fetched w @ [sourcePath p])"
proof -
  have "r \<and> sourcePath p \<noteq> [] \<and> useCache q \<and> sourcePath q = sourcePath p \<longrightarrow>
     fetched (fst (snd (loadAudio fetch
        (w\<lparr>streamCache := (streamCache w)(sourcePath p := None)\<rparr>, q)))) =
     fetched w @ [sourcePath p]"
    by (cases "fetch (sourcePath p)") (auto simp add: loadAudio_cached)
  then show ?thesis
    by (cases "endedPromiseResolver p")
       (simp_all add: dispose_def stop_def stopAllSources_closed Let_def)
qed

theorem dispose_teardown_witness:
  "sourcePath loaded_player \<noteq> [] \<and> useCache (new_player ''energy.mp3'' default_options) \<and>
   sourcePath (new_player ''energy.mp3'' default_options) = sourcePath loaded_player \<and>
   (case dispose True (\<lparr>streamCache = [''energy.mp3'' \<mapsto> sample_buffer], fetched = [''energy.mp3'']\<rparr>,
                       loaded_player) of
      (w', p') \<Rightarrow>
        streamCache w' ''energy.mp3'' = None \<and> buffer p' = None \<and>
        fetched (fst (snd (loadAudio serving_fetch (w', new_player ''energy.mp3'' default_options)))) =
          [''energy.mp3'', ''energy.mp3''])"
proof -
  let ?w = "\<lparr>streamCache = [''energy.mp3'' \<mapsto> sample_buffer], fetched = [''energy.mp3'']\<rparr>"
  let ?q = "new_player ''energy.mp3'' default_options"
  have h: "sourcePath loaded_player \<noteq> []" "useCache ?q" "sourcePath ?q = sourcePath loaded_player"
    by (simp_all add: loaded_player_def new_player_def default_options_def)
  have s: "sourcePath loaded_player = ''energy.mp3''"
    by (simp add: loaded_player_def new_player_def)
  show ?thesis
    using h dispose_teardown [where r = True and w = ?w and p = loaded_player and q = ?q
        and fetch = serving_fetch]
    by (simp add: s split: prod.splits)
qed

text \<open>
  C9 as stated, deletion whenever \<open>removeFromCache\<close> is true, is false: for the empty
  source path the entry of the cache is still there after \<open>dispose(true)\<close>.
\<close>

theorem dispose_keeps_empty_key:
  "streamCache unnamed_world (sourcePath unnamed_player) = Some sample_buffer \<and>
   streamCache (fst (dispose True (unnamed_world, unnamed_player))) (sourcePath unnamed_player) =
     Some sample_buffer"
  by (simp add: dispose_def unnamed_world_def unnamed_player_def new_player_def Let_def
      stopAllSources_closed)

section \<open>The polyphony ceiling as an invariant\<close>

lemma play_resume_ceiling:
  assumes "1 \<le> maxPolyphony p" "int (length (sources p)) \<le> maxPolyphony p"
  shows "maxPolyphony (play_resume p) = maxPolyphony p"
    and "int (length (sources (play_resume p))) \<le> maxPolyphony p"
  using assms
  by (auto simp add: play_resume_def shift_def stopAllSources_closed Let_def
      split: option.splits list.splits)

lemma loadAudio_player:
  "sources (snd (snd (loadAudio fetch (w, p)))) = sources p"
  "maxPolyphony (snd (snd (loadAudio fetch (w, p)))) = maxPolyphony p"
  by (auto simp add: loadAudio_def loadAudioWithCaching_cases loadAudioBuffer_def
      split: option.splits sum.splits prod.splits)

lemma play_ceiling:
  assumes "within_ceiling (w, p)"
  shows "within_ceiling (snd (play fetch (w, p)))"
proof (cases "loadAudio fetch (w, p)")
  case (fields r w1 p1)
  have p1: "sources p1 = sources p" "maxPolyphony p1 = maxPolyphony p"
    using loadAudio_player [of fetch w p] fields by simp_all
  have c: "1 \<le> maxPolyphony p" "int (length (sources p)) \<le> maxPolyphony p"
    using assms by (simp_all add: within_ceiling_def)
  have c1: "1 \<le> maxPolyphony p1" "int (length (sources p1)) \<le> maxPolyphony p1"
    using c p1 by simp_all
  show ?thesis
    using fields c p1 play_resume_ceiling [OF c] play_resume_ceiling [OF c1]
    by (cases r) (simp_all add: play_def within_ceiling_def)
qed

lemma splice_first_length: "length (splice_first i vs) \<le> length vs"
  by (induction vs) simp_all

lemma seek_ceiling:
  assumes "within_ceiling (w, p)"
  shows "within_ceiling (seek fetch t (w, p))"
proof (cases "buffer p")
  case None
  then show ?thesis using assms by (simp add: seek_def)
next
  case (Some b)
  let ?q = "stopAllSources (p\<lparr>offset := js_rem t (duration b)\<rparr>)"
  have "within_ceiling (w, ?q)"
    using assms by (simp add: within_ceiling_def stopAllSources_closed)
  then have "within_ceiling (snd (play fetch (w, ?q)))"
    by (rule play_ceiling)
  then show ?thesis
    using Some assms by (simp add: seek_def Let_def within_ceiling_def)
qed

lemma step_ceiling:
  assumes "within_ceiling s"
    and "case e of SetMaxPolyphony v \<Rightarrow> 1 \<le> v \<and> int (length (sources (snd s))) \<le> v | _ \<Rightarrow> True"
  shows "within_ceiling (step fetch e s)"
proof (cases s)
  case (Pair w p)
  have c: "1 \<le> maxPolyphony p" "int (length (sources p)) \<le> maxPolyphony p"
    using assms(1) Pair by (simp_all add: within_ceiling_def)
  show ?thesis
  proof (cases e)
    case Play
    then show ?thesis using assms(1) Pair by (simp add: play_ceiling)
  next
    case LoadAudio
    then show ?thesis using c Pair by (simp add: within_ceiling_def loadAudio_player)
  next
    case Resume
    then show ?thesis using c Pair play_resume_ceiling [OF c] by (simp add: within_ceiling_def)
  next
    case Stop
    then show ?thesis using c Pair by (simp add: within_ceiling_def stop_def stopAllSources_closed)
  next
    case (Seek t)
    then show ?thesis using assms(1) Pair by (simp add: seek_ceiling)
  next
    case WhenAllEnded
    then show ?thesis using c Pair by (simp add: within_ceiling_def whenAllEnded_def)
  next
    case (Dispose r)
    then show ?thesis
      using c Pair by (simp add: within_ceiling_def dispose_def stopAllSources_closed Let_def)
  next
    case (SetLoop v)
    then show ?thesis using c Pair by (simp add: within_ceiling_def set_loop_closed)
  next
    case (SetPlaybackRate v)
    then show ?thesis using c Pair by (simp add: within_ceiling_def set_playbackRate_closed)
  next
    case (SetMaxPolyphony v)
    then show ?thesis using assms(2) Pair by (simp add: within_ceiling_def set_maxPolyphony_def)
  next
    case (Ended i)
    have "int (length (splice_first i (sources p))) \<le> maxPolyphony p"
      using c(2) splice_first_length [of i "sources p"] by linarith
    then show ?thesis
      using Ended c Pair
      by (simp add: within_ceiling_def onended_def Let_def split: option.splits)
  qed
qed

lemma run_ceiling:
  "within_ceiling s \<Longrightarrow> ceiling_kept fetch es s \<Longrightarrow> within_ceiling (run fetch es s)"
proof (induction es arbitrary: s)
  case Nil
  then show ?case by simp
next
  case (Cons e es)
  from Cons.prems have "within_ceiling (step fetch e s)"
    by (intro step_ceiling) simp_all
  with Cons show ?case by simp
qed

text \<open>
  C5 (as amended). For a player constructed with \<open>maxPolyphony\<close> at least 1 (or left at
  its default), in every state reached by calls of \<open>play\<close>, \<open>loadAudio\<close>, \<open>stop\<close>,
  \<open>seek\<close>, \<open>whenAllEnded\<close>, \<open>dispose\<close>, assignments to \<open>loop\<close>, \<open>playbackRate\<close> and
  \<open>maxPolyphony\<close>, \<open>ended\<close> events and resumptions of suspended \<open>play\<close> calls, in any
  order, the number of active voices is at most \<open>maxPolyphony\<close>, provided that no
  assignment to \<open>maxPolyphony\<close> sets it below 1 or below the number of voices active at
  that moment.
\<close>

theorem ceiling_invariant:
  assumes "case opt_maxPolyphony opts of None \<Rightarrow> True | Some m \<Rightarrow> 1 \<le> m"
    and "ceiling_kept fetch es (w, new_player path opts)"
  shows "int (length (sources (snd (run fetch es (w, new_player path opts)))))
           \<le> maxPolyphony (snd (run fetch es (w, new_player path opts)))"
proof -
  have "within_ceiling (w, new_player path opts)"
    using assms(1) by (simp add: within_ceiling_def new_player_def split: option.splits)
  then have "within_ceiling (run fetch es (w, new_player path opts))"
    using assms(2) by (rule run_ceiling)
  then show ?thesis
    by (simp add: within_ceiling_def)
qed

theorem ceiling_invariant_witness:
  "(case opt_maxPolyphony default_options of None \<Rightarrow> True | Some m \<Rightarrow> 1 \<le> m) \<and>
   ceiling_kept serving_fetch [SetMaxPolyphony 2, Play, Play, Play, Ended 1, SetMaxPolyphony 1]
     (empty_world, new_player ''energy.mp3'' default_options) \<and>
   int (length (sources (snd (run serving_fetch
       [SetMaxPolyphony 2, Play, Play, Play, Ended 1, SetMaxPolyphony 1]
       (empty_world, new_player ''energy.mp3'' default_options)))))
     \<le> maxPolyphony (snd (run serving_fetch
       [SetMaxPolyphony 2, Play, Play, Play, Ended 1, SetMaxPolyphony 1]
       (empty_world, new_player ''energy.mp3'' default_options)))"
proof -
  let ?es = "[SetMaxPolyphony 2, Play, Play, Play, Ended 1, SetMaxPolyphony 1]"
  let ?s = "(empty_world, new_player ''energy.mp3'' default_options)"
  have h1: "case opt_maxPolyphony default_options of None \<Rightarrow> True | Some m \<Rightarrow> 1 \<le> m"
    by (simp add: default_options_def)
  have h2: "ceiling_kept serving_fetch ?es ?s"
    by (simp add: new_player_def default_options_def empty_world_def serving_fetch_def
        play_def loadAudio_cached play_resume_def shift_def Let_def set_maxPolyphony_def
        onended_def halt_def)
  show ?thesis
    using h1 h2 ceiling_invariant [OF h1 h2] by blast
qed

text \<open>
  C5 as stated, for any sequence of assignments, is false: \<open>maxPolyphony = 2\<close>, two
  calls of \<open>play()\<close>, then \<open>maxPolyphony = 1\<close> leave two active voices under a ceiling
  of 1, since the setter evicts nothing.
\<close>

theorem lowered_ceiling_exceeded:
  "\<not> int (length (sources (snd (run serving_fetch [SetMaxPolyphony 2, Play, Play, SetMaxPolyphony 1]
            (empty_world, new_player ''energy.mp3'' default_options)))))
      \<le> maxPolyphony (snd (run serving_fetch [SetMaxPolyphony 2, Play, Play, SetMaxPolyphony 1]
            (empty_world, new_player ''energy.mp3'' default_options)))"
  by (simp add: new_player_def default_options_def empty_world_def serving_fetch_def
        play_def loadAudio_cached play_resume_def shift_def Let_def set_maxPolyphony_def)

section \<open>whenAllEnded\<close>

text \<open>
  C3. The claim is that a pending \<open>whenAllEnded()\<close> is resolved only by the natural end
  of the last voice, by \<open>stop()\<close> or by \<open>dispose()\<close>. The code does otherwise in
  \<open>seek\<close>: after one \<open>play()\<close> and a \<open>whenAllEnded()\<close> that is pending under identity
  1, \<open>seek(5)\<close> calls the resolver of that promise and clears it, and returns with a
  voice active, restarted at offset 5.
\<close>

theorem seek_resolves_waiter:
  "case whenAllEnded (snd (run serving_fetch [Play] (empty_world, loaded_player))) of
     (pr, p1) \<Rightarrow>
       pr = Pending 1 \<and> endedPromiseResolver p1 = Some 1 \<and>
       (case seek serving_fetch 5 (empty_world, p1) of
          (w', p') \<Rightarrow>
            resolved (trace p') = [1] \<and> endedPromiseResolver p' = None \<and>
            map vid (sources p') = [2] \<and> started (trace p') = [(0, Fin 0), (2, Fin 5)])"
  by (simp add: loaded_player_def new_player_def default_options_def empty_world_def
      serving_fetch_def seek_def play_def play_resume_def shift_def stopAllSources_closed
      whenAllEnded_def halt_def sample_buffer_def js_rem_def js_trunc_def Let_def floor_eq_iff)

section \<open>The two versions of the class\<close>














end
